theory Spec2Isabelle
  imports Complex_Main "HOL-Library.Sublist" "HOL-Library.AList"
begin

section \<open>Decoded bodies and Python's operations on them\<close>

text \<open>
  A body decoded by \<^verbatim>\<open>response.json()\<close> is one of Python's values for JSON:
  \<^verbatim>\<open>None\<close>, a \<^verbatim>\<open>bool\<close>, an \<^verbatim>\<open>int\<close>, a \<^verbatim>\<open>float\<close> (its finite values, as
  rationals), a \<^verbatim>\<open>str\<close>, a \<^verbatim>\<open>list\<close> or a \<^verbatim>\<open>dict\<close> with string keys (in
  insertion order).
\<close>

datatype jvalue =
    JNull
  | JBool bool
  | JInt int
  | JFloat rat
  | JString string
  | JArray "jvalue list"
  | JObject "(string \<times> jvalue) list"

text \<open>
  The exceptions the program can meet. \<open>DebankError\<close> is the program's own class; its
  message is the f-string \<^verbatim>\<open>"Debank return {x}"\<close>, kept here as the value \<open>x\<close> that
  is formatted into it. \<open>LibraryError\<close> stands for an exception raised inside a library
  the program calls (a transport failure of httpx, a key or signing error of eth_account),
  with the library's description of it. All of them are subclasses of Python's
  \<^verbatim>\<open>Exception\<close>.
\<close>

datatype error =
    DebankError jvalue
  | JSONDecodeError
  | KeyError string
  | TypeError
  | LibraryError string

text \<open>\<^verbatim>\<open>key in value\<close> for a \<^verbatim>\<open>str\<close> key: membership among a dict's keys, among a
  list's elements, the substring test on a string, a \<^verbatim>\<open>TypeError\<close> elsewhere.\<close>

fun py_contains :: "jvalue \<Rightarrow> string \<Rightarrow> error + bool" where
  "py_contains (JObject kvs) k = Inr (k \<in> set (map fst kvs))"
| "py_contains (JArray xs) k = Inr (JString k \<in> set xs)"
| "py_contains (JString s) k = Inr (sublist k s)"
| "py_contains _ k = Inl TypeError"

text \<open>\<^verbatim>\<open>value[key]\<close> for a \<^verbatim>\<open>str\<close> key: a dict gives the entry or a
  \<^verbatim>\<open>KeyError\<close>; every other value raises a \<^verbatim>\<open>TypeError\<close>.\<close>

fun py_getitem :: "jvalue \<Rightarrow> string \<Rightarrow> error + jvalue" where
  "py_getitem (JObject kvs) k =
     (case map_of kvs k of None \<Rightarrow> Inl (KeyError k) | Some v \<Rightarrow> Inr v)"
| "py_getitem _ k = Inl TypeError"

text \<open>The truth value Python's \<^verbatim>\<open>if\<close> gives a decoded value.\<close>

fun py_truthy :: "jvalue \<Rightarrow> bool" where
  "py_truthy JNull = False"
| "py_truthy (JBool b) = b"
| "py_truthy (JInt i) = (i \<noteq> 0)"
| "py_truthy (JFloat q) = (q \<noteq> 0)"
| "py_truthy (JString s) = (s \<noteq> [])"
| "py_truthy (JArray xs) = (xs \<noteq> [])"
| "py_truthy (JObject kvs) = (kvs \<noteq> [])"

section \<open>Responses and the validation gate\<close>

text \<open>
  What the program reads of an \<^verbatim>\<open>httpx.Response\<close>: \<^verbatim>\<open>status_code\<close>, \<^verbatim>\<open>text\<close>
  and the outcome of \<^verbatim>\<open>json()\<close>, which is \<open>None\<close> when decoding the body raises.
\<close>

record response =
  status_code :: int
  resp_text :: string
  json :: "jvalue option"

definition resp_json :: "response \<Rightarrow> error + jvalue" where
  "resp_json response =
     (case json response of None \<Rightarrow> Inl JSONDecodeError | Some j \<Rightarrow> Inr j)"

text \<open>\<^verbatim>\<open>Debank.validate_response\<close>.\<close>

definition validate_response :: "response \<Rightarrow> error + response" where
  "validate_response response =
     (if status_code response \<noteq> 200 then Inl (DebankError (JString (resp_text response)))
      else case resp_json response of
        Inl e \<Rightarrow> Inl e
      | Inr err_json \<Rightarrow>
          (case py_contains err_json ''error_msg'' of
            Inl e \<Rightarrow> Inl e
          | Inr True \<Rightarrow>
              (case py_getitem err_json ''error_msg'' of
                Inl e \<Rightarrow> Inl e
              | Inr msg \<Rightarrow> Inl (DebankError msg))
          | Inr False \<Rightarrow> Inr response))"

text \<open>Sequencing of steps that may raise.\<close>

definition bind_err :: "error + 'a \<Rightarrow> ('a \<Rightarrow> error + 'b) \<Rightarrow> error + 'b" where
  "bind_err r f = (case r of Inl e \<Rightarrow> Inl e | Inr x \<Rightarrow> f x)"

text \<open>\<^verbatim>\<open>response.json()["data"][field]\<close>, as \<^verbatim>\<open>login\<close>, \<^verbatim>\<open>is_can_mint_bage\<close> and
  \<^verbatim>\<open>badge_list\<close> read it.\<close>

definition data_field :: "response \<Rightarrow> string \<Rightarrow> error + jvalue" where
  "data_field response field =
     bind_err (resp_json response) (\<lambda>j.
     bind_err (py_getitem j ''data'') (\<lambda>d.
     py_getitem d field))"

section \<open>The accounts file\<close>

text \<open>
  \<^verbatim>\<open>main\<close>, lines 14 to 19: a line with a colon is cut by
  \<^verbatim>\<open>account.split(":", maxsplit=1)\<close>, at its first colon; a line without one is paired
  with \<^verbatim>\<open>None\<close>.
\<close>

definition split_maxsplit1 :: "char \<Rightarrow> string \<Rightarrow> string \<times> string" where
  "split_maxsplit1 sep s =
     (takeWhile (\<lambda>c. c \<noteq> sep) s, tl (dropWhile (\<lambda>c. c \<noteq> sep) s))"

definition format_account :: "string \<Rightarrow> string \<times> string option" where
  "format_account account =
     (if CHR '':'' \<in> set account
      then (case split_maxsplit1 CHR '':'' account of (private_key, proxy) \<Rightarrow>
              (private_key, Some proxy))
      else (account, None))"

section \<open>Requests, the client and its environment\<close>

datatype http_verb = GET | POST

text \<open>The dictionary \<^verbatim>\<open>account_header\<close> that \<^verbatim>\<open>login\<close> builds; the client keeps its
  \<^verbatim>\<open>json.dumps\<close> under the header name \<^verbatim>\<open>account\<close>.\<close>

record account_header =
  random_at :: int
  random_id :: string
  session_id :: jvalue
  user_addr :: string
  wallet_type :: string
  is_verified :: bool

datatype header_value = Fixed string | Dumped account_header

record request =
  verb :: http_verb
  url :: string
  params :: "(string \<times> jvalue) list"
  json_body :: "(string \<times> jvalue) list"
  req_headers :: "(string \<times> header_value) list"
  via :: "string option"

text \<open>\<^verbatim>\<open>DebankApiUrl\<close>.\<close>

definition REFCODE_TRACK :: string where
  "REFCODE_TRACK = ''https://api.debank.com/user/ref_code/track''"

definition BADGE_USER_CAN_MINT :: string where
  "BADGE_USER_CAN_MINT = ''https://api.debank.com/badge/user_can_mint''"

definition BADGE_MINT :: string where
  "BADGE_MINT = ''https://api.debank.com/badge/mint''"

definition SIGN_V2 :: string where
  "SIGN_V2 = ''https://api.debank.com/user/sign_v2''"

definition LOGIN_V2 :: string where
  "LOGIN_V2 = ''https://api.debank.com/user/login_v2''"

definition BADGE_LIST :: string where
  "BADGE_LIST = ''https://api.debank.com/badge/list''"

text \<open>An \<^verbatim>\<open>eth_account\<close> account: its checksummed address and the key it signs with.\<close>

record eth_account =
  address :: string
  signing_key :: string

text \<open>Events a run leaves behind, in order: a request with what came back (a response, or
  the exception the transport raised), a sleep, a log line.\<close>

datatype log_entry =
    Info_found nat "string list"
  | Success_minted string jvalue
  | Error_cant_mint string jvalue
  | Error_debank error
  | Error_other error

datatype event =
    Call request "error + response"
  | Sleep nat
  | Log log_entry

record 'w sys =
  world :: 'w
  trace :: "event list"

text \<open>
  What the program takes from outside itself. \<open>HEADERS\<close> is the constant of
  \<^verbatim>\<open>debank.const\<close>; \<open>send\<close> is the remote service behind httpx, answering a request in a
  state of the world \<open>'w\<close>; \<open>time_now\<close> is \<^verbatim>\<open>int(time.time())\<close>; \<open>uuid4_hex\<close> is
  \<^verbatim>\<open>uuid.uuid4().hex\<close>; \<open>from_key\<close> is \<^verbatim>\<open>Account.from_key\<close>; \<open>sign_message\<close> is the
  hex signature of \<^verbatim>\<open>account.sign_message(encode_defunct(text=t))\<close>; \<open>async_client\<close> is
  the exception, if any, that constructing \<^verbatim>\<open>AsyncClient\<close> with the given proxy raises.
\<close>

record 'w env =
  HEADERS :: "(string \<times> string) list"
  send :: "request \<Rightarrow> 'w \<Rightarrow> (error + response) \<times> 'w"
  time_now :: "'w \<Rightarrow> int"
  uuid4_hex :: "'w \<Rightarrow> string \<times> 'w"
  from_key :: "string \<Rightarrow> error + eth_account"
  sign_message :: "eth_account \<Rightarrow> string \<Rightarrow> string"
  async_client :: "string option \<Rightarrow> error option"

type_synonym ('w, 'a) io = "'w sys \<Rightarrow> (error + 'a) \<times> 'w sys"

definition io_return :: "'a \<Rightarrow> ('w, 'a) io" where
  "io_return x = (\<lambda>s. (Inr x, s))"

definition io_lift :: "error + 'a \<Rightarrow> ('w, 'a) io" where
  "io_lift r = (\<lambda>s. (r, s))"

definition io_bind :: "('w, 'a) io \<Rightarrow> ('a \<Rightarrow> ('w, 'b) io) \<Rightarrow> ('w, 'b) io" where
  "io_bind m f = (\<lambda>s. case m s of (Inl e, s') \<Rightarrow> (Inl e, s') | (Inr x, s') \<Rightarrow> f x s')"

definition emit :: "event \<Rightarrow> ('w, unit) io" where
  "emit ev = (\<lambda>s. (Inr (), s\<lparr>trace := trace s @ [ev]\<rparr>))"

text \<open>\<^verbatim>\<open>await client.get(...)\<close> and \<^verbatim>\<open>await client.post(...)\<close>.\<close>

definition http :: "'w env \<Rightarrow> request \<Rightarrow> ('w, response) io" where
  "http env req =
     (\<lambda>s. case send env req (world s) of (res, w') \<Rightarrow>
        (res, s\<lparr>world := w', trace := trace s @ [Call req res]\<rparr>))"

section \<open>The session client: class \<^verbatim>\<open>Debank\<close>\<close>

record client =
  headers :: "(string \<times> header_value) list"
  proxies :: "string option"

text \<open>\<^verbatim>\<open>Debank.__init__\<close>: the proxy is used only when it is truthy (neither \<^verbatim>\<open>None\<close>
  nor the empty string); the headers start as \<open>HEADERS\<close>. The finalizer \<^verbatim>\<open>__del__\<close>,
  which closes the connection and swallows what that raises, changes nothing of what is
  modelled here and is left out.\<close>

definition Debank_init :: "'w env \<Rightarrow> string option \<Rightarrow> error + client" where
  "Debank_init env proxy =
     (let p = (case proxy of None \<Rightarrow> None | Some x \<Rightarrow> if x = [] then None else Some x)
      in case async_client env p of
           Some e \<Rightarrow> Inl e
         | None \<Rightarrow> Inr \<lparr>headers = map (\<lambda>(k, v). (k, Fixed v)) (HEADERS env), proxies = p\<rparr>)"

definition client_request ::
  "client \<Rightarrow> http_verb \<Rightarrow> string \<Rightarrow> (string \<times> jvalue) list \<Rightarrow> (string \<times> jvalue) list \<Rightarrow> request" where
  "client_request c v u ps js =
     \<lparr>verb = v, url = u, params = ps, json_body = js, req_headers = headers c, via = proxies c\<rparr>"

definition refcode_track :: "'w env \<Rightarrow> client \<Rightarrow> ('w, response) io" where
  "refcode_track env self =
     io_bind (http env (client_request self POST REFCODE_TRACK [] []))
       (\<lambda>response. io_lift (validate_response response))"

definition badge_user_can_mint :: "'w env \<Rightarrow> client \<Rightarrow> jvalue \<Rightarrow> ('w, response) io" where
  "badge_user_can_mint env self bid =
     io_bind (http env (client_request self GET BADGE_USER_CAN_MINT [(''id'', bid)] []))
       (\<lambda>response. io_lift (validate_response response))"

definition badge_mint :: "'w env \<Rightarrow> client \<Rightarrow> jvalue \<Rightarrow> ('w, response) io" where
  "badge_mint env self bid =
     io_bind (http env (client_request self GET BADGE_MINT [] [(''id'', bid)]))
       (\<lambda>response. io_lift (validate_response response))"

definition sign_v2 :: "'w env \<Rightarrow> client \<Rightarrow> string \<Rightarrow> ('w, response) io" where
  "sign_v2 env self addr =
     io_bind (http env (client_request self POST SIGN_V2 [] [(''id'', JString addr)]))
       (\<lambda>response. io_lift (validate_response response))"

definition login_v2 :: "'w env \<Rightarrow> client \<Rightarrow> string \<Rightarrow> string \<Rightarrow> ('w, response) io" where
  "login_v2 env self addr signature =
     io_bind (http env (client_request self POST LOGIN_V2 []
                [(''id'', JString addr), (''signature'', JString signature)]))
       (\<lambda>response. io_lift (validate_response response))"

section \<open>The authenticated worker: class \<^verbatim>\<open>DebankWorker\<close>\<close>

text \<open>\<^verbatim>\<open>str.lower\<close> on the ASCII letters an address is written in.\<close>

definition lower_char :: "char \<Rightarrow> char" where
  "lower_char c =
     (case map_of (zip ''ABCDEFGHIJKLMNOPQRSTUVWXYZ'' ''abcdefghijklmnopqrstuvwxyz'') c of
        Some l \<Rightarrow> l
      | None \<Rightarrow> c)"

definition lower :: "string \<Rightarrow> string" where
  "lower s = map lower_char s"

text \<open>The signature over the challenge: \<^verbatim>\<open>encode_defunct(text=...)\<close> takes a string and
  raises on any other value.\<close>

definition sign_text :: "'w env \<Rightarrow> eth_account \<Rightarrow> jvalue \<Rightarrow> error + string" where
  "sign_text env account t =
     (case t of
        JString txt \<Rightarrow> Inr (sign_message env account txt)
      | _ \<Rightarrow> Inl (LibraryError ''encode_defunct''))"

definition io_time :: "'w env \<Rightarrow> ('w, int) io" where
  "io_time env = (\<lambda>s. (Inr (time_now env (world s)), s))"

definition io_uuid :: "'w env \<Rightarrow> ('w, string) io" where
  "io_uuid env = (\<lambda>s. case uuid4_hex env (world s) of (u, w') \<Rightarrow> (Inr u, s\<lparr>world := w'\<rparr>))"

text \<open>\<^verbatim>\<open>DebankWorker.login\<close>. The client is mutated in Python; here the updated client is
  returned.\<close>

definition login :: "'w env \<Rightarrow> client \<Rightarrow> eth_account \<Rightarrow> ('w, client) io" where
  "login env self account =
     io_bind (sign_v2 env self (lower (address account))) (\<lambda>sign_v2_response.
     io_bind (io_lift (data_field sign_v2_response ''text'')) (\<lambda>sign_v2_text.
     io_bind (io_lift (sign_text env account sign_v2_text)) (\<lambda>signature.
     io_bind (login_v2 env self (lower (address account)) signature) (\<lambda>login_v2_response.
     io_bind (io_lift (data_field login_v2_response ''session_id'')) (\<lambda>sid.
     io_bind (io_time env) (\<lambda>t.
     io_bind (io_uuid env) (\<lambda>u.
     io_return (self\<lparr>headers :=
       AList.update ''account''
         (Dumped \<lparr>random_at = t, random_id = u, session_id = sid,
                   user_addr = lower (address account), wallet_type = ''metamask'',
                   is_verified = True\<rparr>)
         (headers self)\<rparr>))))))))"

text \<open>\<^verbatim>\<open>DebankWorker.is_can_mint_bage\<close>.\<close>

definition is_can_mint_bage :: "'w env \<Rightarrow> client \<Rightarrow> jvalue \<Rightarrow> ('w, jvalue) io" where
  "is_can_mint_bage env self bid =
     io_bind (badge_user_can_mint env self bid)
       (\<lambda>response. io_lift (data_field response ''can_mint''))"

section \<open>The badge catalog: \<^verbatim>\<open>badge_list\<close>\<close>

text \<open>
  A Python \<^verbatim>\<open>dict\<close> keeps its entries in insertion order and finds a key by hash and
  equality, under which \<^verbatim>\<open>True\<close>, \<^verbatim>\<open>1\<close> and \<^verbatim>\<open>1.0\<close> are one key. \<open>py_hash_key\<close>
  gives the class of a hashable value, and \<open>None\<close> for a list or a dict, which are not
  hashable.
\<close>

datatype pykey = KNone | KNum rat | KStr string

fun py_hash_key :: "jvalue \<Rightarrow> pykey option" where
  "py_hash_key JNull = Some KNone"
| "py_hash_key (JBool b) = Some (KNum (if b then 1 else 0))"
| "py_hash_key (JInt i) = Some (KNum (of_int i))"
| "py_hash_key (JFloat q) = Some (KNum q)"
| "py_hash_key (JString s) = Some (KStr s)"
| "py_hash_key (JArray xs) = None"
| "py_hash_key (JObject kvs) = None"

text \<open>\<^verbatim>\<open>d[k] = v\<close>: an entry whose key equals \<open>k\<close> keeps its key and its place and takes the
  new value; otherwise the entry is added at the end.\<close>

fun dict_set :: "(jvalue \<times> 'v) list \<Rightarrow> jvalue \<Rightarrow> 'v \<Rightarrow> (jvalue \<times> 'v) list" where
  "dict_set [] k v = [(k, v)]"
| "dict_set ((k', v') # d) k v =
     (if py_hash_key k' = py_hash_key k then (k', v) # d else (k', v') # dict_set d k v)"

text \<open>\<^verbatim>\<open>len(x)\<close> and the elements a \<^verbatim>\<open>for\<close> loop over \<open>x\<close> visits.\<close>

fun py_len :: "jvalue \<Rightarrow> error + nat" where
  "py_len (JArray xs) = Inr (length xs)"
| "py_len (JObject kvs) = Inr (length kvs)"
| "py_len (JString s) = Inr (length s)"
| "py_len _ = Inl TypeError"

fun py_iter :: "jvalue \<Rightarrow> error + jvalue list" where
  "py_iter (JArray xs) = Inr xs"
| "py_iter (JObject kvs) = Inr (map (\<lambda>kv. JString (fst kv)) kvs)"
| "py_iter (JString s) = Inr (map (\<lambda>c. JString [c]) s)"
| "py_iter _ = Inl TypeError"

text \<open>\<^verbatim>\<open>[badge['name'] for badge in badges]\<close>, and the check of \<^verbatim>\<open>', '.join\<close> that every
  item is a string.\<close>

fun names_of :: "jvalue list \<Rightarrow> error + jvalue list" where
  "names_of [] = Inr []"
| "names_of (badge # badges) =
     bind_err (py_getitem badge ''name'') (\<lambda>n.
     bind_err (names_of badges) (\<lambda>ns. Inr (n # ns)))"

fun join_names :: "jvalue list \<Rightarrow> error + string list" where
  "join_names [] = Inr []"
| "join_names (JString s # ns) = bind_err (join_names ns) (\<lambda>ss. Inr (s # ss))"
| "join_names (_ # ns) = Inl TypeError"

text \<open>\<^verbatim>\<open>{badge["id"]: badge["name"] for badge in badges}\<close>, from the dict built so far.\<close>

fun dict_comprehension ::
  "jvalue list \<Rightarrow> (jvalue \<times> jvalue) list \<Rightarrow> error + (jvalue \<times> jvalue) list" where
  "dict_comprehension [] d = Inr d"
| "dict_comprehension (badge # badges) d =
     bind_err (py_getitem badge ''id'') (\<lambda>k.
     bind_err (py_getitem badge ''name'') (\<lambda>v.
     if py_hash_key k = None then Inl TypeError
     else dict_comprehension badges (dict_set d k v)))"

definition badge_list_request :: "'w env \<Rightarrow> request" where
  "badge_list_request env =
     \<lparr>verb = GET, url = BADGE_LIST, params = [], json_body = [],
      req_headers = map (\<lambda>(k, v). (k, Fixed v)) (HEADERS env), via = None\<rparr>"

text \<open>\<^verbatim>\<open>badge_list\<close>: a client of its own, one request, and the body read as it comes.\<close>

definition badge_list :: "'w env \<Rightarrow> ('w, (jvalue \<times> jvalue) list) io" where
  "badge_list env =
     io_bind (io_lift (case async_client env None of Some e \<Rightarrow> Inl e | None \<Rightarrow> Inr ())) (\<lambda>_.
     io_bind (http env (badge_list_request env)) (\<lambda>response.
     io_bind (io_lift (data_field response ''badge_list'')) (\<lambda>badges.
     io_bind (io_lift (py_len badges)) (\<lambda>n.
     io_bind (io_lift (bind_err (py_iter badges) (\<lambda>items.
                       bind_err (names_of items) join_names))) (\<lambda>names.
     io_bind (emit (Log (Info_found n names))) (\<lambda>_.
     io_lift (bind_err (py_iter badges) (\<lambda>items. dict_comprehension items []))))))))"

section \<open>The worker loop: \<^verbatim>\<open>worker\<close>\<close>

text \<open>The body of the \<^verbatim>\<open>for\<close> loop over \<^verbatim>\<open>BADGE_IDS.items()\<close>, lines 134 to 142.\<close>

definition mint_badge ::
  "'w env \<Rightarrow> client \<Rightarrow> eth_account \<Rightarrow> jvalue \<times> jvalue \<Rightarrow> ('w, unit) io" where
  "mint_badge env debank account badge =
     (case badge of (bid, name) \<Rightarrow>
        io_bind (is_can_mint_bage env debank bid) (\<lambda>is_can_mint.
        io_bind (if py_truthy is_can_mint
                 then io_bind (badge_mint env debank bid) (\<lambda>_.
                      emit (Log (Success_minted (address account) name)))
                 else emit (Log (Error_cant_mint (address account) name))) (\<lambda>_.
        emit (Sleep 2))))"

fun for_badges ::
  "'w env \<Rightarrow> client \<Rightarrow> eth_account \<Rightarrow> (jvalue \<times> jvalue) list \<Rightarrow> ('w, unit) io" where
  "for_badges env debank account [] = io_return ()"
| "for_badges env debank account (badge # badges) =
     io_bind (mint_badge env debank account badge) (\<lambda>_.
     for_badges env debank account badges)"

text \<open>The \<^verbatim>\<open>try\<close> block, lines 131 to 142.\<close>

definition try_block ::
  "'w env \<Rightarrow> (jvalue \<times> jvalue) list \<Rightarrow> eth_account \<Rightarrow> client \<Rightarrow> ('w, unit) io" where
  "try_block env BADGE_IDS account debank =
     io_bind (login env debank account) (\<lambda>debank'.
     for_badges env debank' account BADGE_IDS)"

text \<open>The \<^verbatim>\<open>try\<close> statement with its two handlers, lines 130 to 146: what it leaves behind.
  Nothing is raised out of it.\<close>

definition try_except ::
  "'w env \<Rightarrow> (jvalue \<times> jvalue) list \<Rightarrow> eth_account \<Rightarrow> client \<Rightarrow> 'w sys \<Rightarrow> 'w sys" where
  "try_except env BADGE_IDS account debank s =
     (case try_block env BADGE_IDS account debank s of
        (Inr _, s') \<Rightarrow> s'
      | (Inl (DebankError m), s') \<Rightarrow> s'\<lparr>trace := trace s' @ [Log (Error_debank (DebankError m))]\<rparr>
      | (Inl e, s') \<Rightarrow> s'\<lparr>trace := trace s' @ [Log (Error_other e)]\<rparr>)"

text \<open>Lines 126 to 128, before the \<^verbatim>\<open>try\<close>: the account of the key, then the client.\<close>

definition prepare :: "'w env \<Rightarrow> string \<times> string option \<Rightarrow> error + eth_account \<times> client" where
  "prepare env item =
     (case item of (private_key, proxy) \<Rightarrow>
        bind_err (from_key env private_key) (\<lambda>account.
        bind_err (Debank_init env proxy) (\<lambda>debank.
        Inr (account, debank))))"


section \<open>The dispatcher: \<^verbatim>\<open>main\<close>\<close>

text \<open>
  \<^verbatim>\<open>asyncio.gather\<close> runs the worker loops as tasks of one event loop: one task runs at a
  time, from one suspension point to the next. A loop at its head tests \<^verbatim>\<open>q.empty()\<close> and,
  the queue not being empty, \<^verbatim>\<open>q.get()\<close> returns the first item without suspending; the
  account and the client are made in the same step, and the task first suspends inside the
  \<^verbatim>\<open>try\<close> statement, at a request. A task is therefore at the head of its loop, inside
  the \<^verbatim>\<open>try\<close> statement for an item, returned, or ended by an exception raised before
  the \<^verbatim>\<open>try\<close>. \<open>taken\<close> and \<open>finished\<close> record which task dequeued which item and
  for which items a \<^verbatim>\<open>try\<close> statement ran to its end; \<open>failure\<close> is the exception that
  was raised first, if any.
\<close>

datatype task =
    AtLoopHead
  | InTry "string \<times> string option" eth_account client
  | Returned
  | Raised error

record 'w config =
  sys_state :: "'w sys"
  queue :: "(string \<times> string option) list"
  tasks :: "task list"
  taken :: "(nat \<times> (string \<times> string option)) list"
  finished :: "(nat \<times> (string \<times> string option)) list"
  failure :: "error option"

fun is_returned :: "task \<Rightarrow> bool" where
  "is_returned Returned = True"
| "is_returned _ = False"

text \<open>
  One step of task \<open>i\<close>: from the head of the loop to the \<^verbatim>\<open>try\<close> statement, to the
  return or to the exception of line 126 or 128; or through the \<^verbatim>\<open>try\<close> statement, back
  to the head. A task that has returned or raised has no step.
\<close>

definition step ::
  "'w env \<Rightarrow> (jvalue \<times> jvalue) list \<Rightarrow> nat \<Rightarrow> 'w config \<Rightarrow> 'w config option" where
  "step env BADGE_IDS i c =
     (if i < length (tasks c) then
        (case tasks c ! i of
           AtLoopHead \<Rightarrow>
             (case queue c of
                [] \<Rightarrow> Some (c\<lparr>tasks := (tasks c)[i := Returned]\<rparr>)
              | item # rest \<Rightarrow>
                  (case prepare env item of
                     Inl e \<Rightarrow>
                       Some (c\<lparr>queue := rest, taken := taken c @ [(i, item)],
                               tasks := (tasks c)[i := Raised e],
                               failure := (case failure c of None \<Rightarrow> Some e | Some e' \<Rightarrow> Some e')\<rparr>)
                   | Inr (account, debank) \<Rightarrow>
                       Some (c\<lparr>queue := rest, taken := taken c @ [(i, item)],
                               tasks := (tasks c)[i := InTry item account debank]\<rparr>)))
         | InTry item account debank \<Rightarrow>
             Some (c\<lparr>sys_state := try_except env BADGE_IDS account debank (sys_state c),
                     finished := finished c @ [(i, item)],
                     tasks := (tasks c)[i := AtLoopHead]\<rparr>)
         | Returned \<Rightarrow> None
         | Raised e \<Rightarrow> None)
      else None)"

text \<open>A run under a schedule, the list of the tasks that step, in order.\<close>

fun run ::
  "'w env \<Rightarrow> (jvalue \<times> jvalue) list \<Rightarrow> nat list \<Rightarrow> 'w config \<Rightarrow> 'w config option" where
  "run env BADGE_IDS [] c = Some c"
| "run env BADGE_IDS (i # sched) c =
     (case step env BADGE_IDS i c of
        None \<Rightarrow> None
      | Some c' \<Rightarrow> run env BADGE_IDS sched c')"

text \<open>
  \<^verbatim>\<open>await asyncio.gather(...)\<close>. When a task has raised, \<^verbatim>\<open>gather\<close> hands the first
  exception to \<^verbatim>\<open>main\<close> at its next turn; \<^verbatim>\<open>main\<close> does not catch it, and \<^verbatim>\<open>asyncio.run\<close>
  cancels the tasks that still run. Which steps the other tasks take before that turn is
  the event loop's choice, so a schedule may go on after a task has raised: the schedule
  is the steps taken until \<^verbatim>\<open>gather\<close> ends. Without an exception \<^verbatim>\<open>gather\<close> returns once
  every task has returned. The result is \<open>None\<close> when the schedule is not that of a
  whole run.
\<close>

definition gather ::
  "'w env \<Rightarrow> (jvalue \<times> jvalue) list \<Rightarrow> nat list \<Rightarrow> 'w config \<Rightarrow>
     ((error + unit) \<times> 'w config) option" where
  "gather env BADGE_IDS sched c =
     (case run env BADGE_IDS sched c of
        None \<Rightarrow> None
      | Some c' \<Rightarrow>
          (case failure c' of
             Some e \<Rightarrow> Some (Inl e, c')
           | None \<Rightarrow> if list_all is_returned (tasks c') then Some (Inr (), c') else None))"

datatype 'w outcome =
    CatalogFailed error "'w sys"
  | Aborted error "'w config"
  | Completed "'w config"

text \<open>The state in which \<^verbatim>\<open>gather\<close> starts \<open>n\<close> worker loops on a queue.\<close>

definition start :: "'w sys \<Rightarrow> (string \<times> string option) list \<Rightarrow> nat \<Rightarrow> 'w config" where
  "start s q n =
     \<lparr>sys_state = s, queue = q, tasks = replicate n AtLoopHead, taken = [], finished = [],
      failure = None\<rparr>"

text \<open>\<^verbatim>\<open>main\<close>, from the lines of \<^verbatim>\<open>accounts.txt\<close>: the queue, the catalog, five worker
  loops.\<close>

definition main :: "'w env \<Rightarrow> string list \<Rightarrow> nat list \<Rightarrow> 'w sys \<Rightarrow> 'w outcome option" where
  "main env accounts sched s =
     (let format_accounts = map format_account accounts in
      case badge_list env s of
        (Inl e, s') \<Rightarrow> Some (CatalogFailed e s')
      | (Inr BADGE_IDS, s') \<Rightarrow>
          (case gather env BADGE_IDS sched (start s' format_accounts 5) of
             None \<Rightarrow> None
           | Some (Inl e, c) \<Rightarrow> Some (Aborted e c)
           | Some (Inr _, c) \<Rightarrow> Some (Completed c)))"

section \<open>Reading a dict, and an environment to run in\<close>

text \<open>\<^verbatim>\<open>d.get(k)\<close>: the value of the entry whose key equals \<open>k\<close>.\<close>

fun dict_get :: "(jvalue \<times> 'v) list \<Rightarrow> jvalue \<Rightarrow> 'v option" where
  "dict_get [] k = None"
| "dict_get ((k', v') # d) k = (if py_hash_key k' = py_hash_key k then Some v' else dict_get d k)"

text \<open>The keys of a dict, each as its class under Python's equality.\<close>

definition hkeys :: "(jvalue \<times> 'v) list \<Rightarrow> pykey option list" where
  "hkeys d = map (\<lambda>kv. py_hash_key (fst kv)) d"

text \<open>The dict that assigning the pairs one after the other builds from \<open>d\<close>.\<close>

definition dict_of :: "(jvalue \<times> 'v) list \<Rightarrow> (jvalue \<times> 'v) list \<Rightarrow> (jvalue \<times> 'v) list" where
  "dict_of d pairs = foldl (\<lambda>d kv. dict_set d (fst kv) (snd kv)) d pairs"

text \<open>
  An environment for running the definitions on concrete inputs: the n-th request is
  answered by the n-th entry of a script, and by a connection error after the script's
  end. Its \<open>from_key\<close> accepts, as eth_account does, a key of 32 bytes written in
  hexadecimal, with or without the prefix \<^verbatim>\<open>0x\<close>, and raises on anything else; the
  address it gives is made up from the key.
\<close>

definition sample_from_key :: "string \<Rightarrow> error + eth_account" where
  "sample_from_key k =
     (let h = (if take 2 k = ''0x'' then drop 2 k else k) in
      if length h = 64 \<and> list_all (\<lambda>c. c \<in> set ''0123456789abcdefABCDEF'') h
      then Inr \<lparr>address = ''0xAbCd'' @ take 36 h, signing_key = h\<rparr>
      else Inl (LibraryError ''ValueError''))"

definition scripted :: "(error + response) list \<Rightarrow> nat env" where
  "scripted rs =
     \<lparr>HEADERS = [(''accept'', ''*/*'')],
      send = (\<lambda>req n. (if n < length rs then rs ! n else Inl (LibraryError ''ConnectError''), Suc n)),
      time_now = (\<lambda>n. 1700000000 + int n),
      uuid4_hex = (\<lambda>n. (''9f1c2a3b4d5e4f60819293a4b5c6d7e8'', n)),
      from_key = sample_from_key,
      sign_message = (\<lambda>account t. ''0x5167'' @ t),
      async_client = (\<lambda>p. None)\<rparr>"

text \<open>Responses and keys to script a run with.\<close>

definition json_response :: "string \<Rightarrow> jvalue \<Rightarrow> response" where
  "json_response body j = \<lparr>status_code = 200, resp_text = body, json = Some j\<rparr>"

definition sign_ok :: response where
  \<open>sign_ok = json_response ''{"data": {"text": "Sign in to DeBank"}}''
     (JObject [(''data'', JObject [(''text'', JString ''Sign in to DeBank'')])])\<close>

definition login_ok :: response where
  \<open>login_ok = json_response ''{"data": {"session_id": "5f3c"}}''
     (JObject [(''data'', JObject [(''session_id'', JString ''5f3c'')])])\<close>

definition login_refused :: response where
  \<open>login_refused = json_response ''{"error_msg": "signature invalid"}''
     (JObject [(''error_msg'', JString ''signature invalid'')])\<close>

definition can_mint_true :: response where
  \<open>can_mint_true = json_response ''{"data": {"can_mint": true}}''
     (JObject [(''data'', JObject [(''can_mint'', JBool True)])])\<close>

definition can_mint_false :: response where
  \<open>can_mint_false = json_response ''{"data": {"can_mint": false}}''
     (JObject [(''data'', JObject [(''can_mint'', JBool False)])])\<close>

definition mint_ok :: response where
  \<open>mint_ok = json_response ''{"data": {}}'' (JObject [(''data'', JObject [])])\<close>

definition key_a :: string where
  "key_a = ''4c0883a69102937d6231471b5dbb6204fe5129617082792ae468d01a3f362318''"

definition key_b :: string where
  "key_b = ''0x8da4ef21b864d2cc526dbdb2a120bd2874c36c9d0a1fb7f8c63d7f7a8b41de8f''"

definition rate_limited :: response where
  \<open>rate_limited = \<lparr>status_code = 429, resp_text = ''{"error_msg": "Too Many Requests"}'',
     json = Some (JObject [(''error_msg'', JString ''Too Many Requests'')])\<rparr>\<close>

definition refused_list :: response where
  \<open>refused_list = \<lparr>status_code = 200,
     resp_text = ''{"error_msg": "not login", "data": {"badge_list": [{"id": 1, "name": "Genesis"}]}}'',
     json = Some (JObject [(''error_msg'', JString ''not login''),
       (''data'', JObject [(''badge_list'',
          JArray [JObject [(''id'', JInt 1), (''name'', JString ''Genesis'')]])])])\<rparr>\<close>

definition badges_ok :: response where
  \<open>badges_ok = json_response
     ''{"data": {"badge_list": [{"id": 1, "name": "Genesis"}, {"id": 2, "name": "Pioneer"}]}}''
     (JObject [(''data'', JObject [(''badge_list'',
        JArray [JObject [(''id'', JInt 1), (''name'', JString ''Genesis'')],
                JObject [(''id'', JInt 2), (''name'', JString ''Pioneer'')]])])])\<close>

section \<open>What a run leaves in its trace\<close>






section \<open>What a run of the worker loops keeps\<close>

text \<open>
  The steps a task still has before it: one at the head of the loop (to return or to
  dequeue), two inside a \<^verbatim>\<open>try\<close> statement; and, for a state, two more for every queued
  item.
\<close>

definition weight :: "task \<Rightarrow> nat" where
  "weight t = (case t of AtLoopHead \<Rightarrow> 1 | InTry item a d \<Rightarrow> 2 | _ \<Rightarrow> 0)"

definition steps_left :: "'w config \<Rightarrow> nat" where
  "steps_left c = 2 * length (queue c) + sum_list (map weight (tasks c))"

text \<open>The item a task holds inside its \<^verbatim>\<open>try\<close> statement, and the entries of a record
  that belong to task \<open>j\<close>.\<close>

definition current :: "task \<Rightarrow> nat \<Rightarrow> (nat \<times> (string \<times> string option)) list" where
  "current t j = (case t of InTry item a d \<Rightarrow> [(j, item)] | _ \<Rightarrow> [])"

definition of_task :: "nat \<Rightarrow> (nat \<times> 'a) list \<Rightarrow> (nat \<times> 'a) list" where
  "of_task j ps = filter (\<lambda>p. fst p = j) ps"

text \<open>
  What holds of every state of a run in which no exception is raised before a \<^verbatim>\<open>try\<close>:
  the items dequeued so far and the queue are the input, in order; a task has returned
  only when the queue was empty; what a task has dequeued is what it has finished, in the
  same order, and the item it holds.
\<close>

definition consistent :: "nat \<Rightarrow> (string \<times> string option) list \<Rightarrow> 'w config \<Rightarrow> bool" where
  "consistent n q c \<longleftrightarrow>
     failure c = None \<and> length (tasks c) = n \<and>
     map snd (taken c) @ queue c = q \<and>
     (Returned \<in> set (tasks c) \<longrightarrow> queue c = []) \<and>
     (\<forall>j<n. of_task j (taken c) = of_task j (finished c) @ current (tasks c ! j) j) \<and>
     length (taken c) = length (finished c) + length (filter (\<lambda>t. weight t = 2) (tasks c)) \<and>
     (\<forall>p \<in> set (taken c) \<union> set (finished c). fst p < n)"

text \<open>No \<^verbatim>\<open>try\<close> statement runs or has run for the item.\<close>

definition never_done :: "string \<times> string option \<Rightarrow> 'w config \<Rightarrow> bool" where
  "never_done item c \<longleftrightarrow>
     (\<forall>a d. InTry item a d \<notin> set (tasks c)) \<and> item \<notin> snd ` set (finished c)"

lemmas sample_defs = json_response_def sign_ok_def login_ok_def login_refused_def
  can_mint_true_def can_mint_false_def mint_ok_def key_a_def key_b_def rate_limited_def
  refused_list_def badges_ok_def

lemmas io_defs = io_bind_def io_lift_def io_return_def io_time_def io_uuid_def emit_def http_def
  bind_err_def data_field_def resp_json_def validate_response_def

lemmas run_defs = prepare_def Debank_init_def try_except_def try_block_def login_def sign_v2_def
  login_v2_def mint_badge_def is_can_mint_bage_def badge_user_can_mint_def badge_mint_def
  client_request_def sign_text_def lower_def lower_char_def scripted_def sample_from_key_def

section \<open>Properties of the validation gate\<close>









lemma py_contains_not_decode_error: "py_contains j k \<noteq> Inl JSONDecodeError"
  by (cases j) simp_all

lemma py_getitem_not_decode_error: "py_getitem j k \<noteq> Inl JSONDecodeError"
  by (cases j) (simp_all split: option.splits)

text \<open>
  C10. Under a status other than 200, \<^verbatim>\<open>validate_response\<close> raises the \<open>DebankError\<close> of
  the raw text whatever decoding the body would give, a decoding failure included: the
  outcome of \<^verbatim>\<open>json()\<close> is not looked at. A decoding failure comes out of it only under
  status 200.
\<close>

theorem validate_response_decodes_only_on_200:
  "(status_code r \<noteq> 200 \<longrightarrow>
      (\<forall>j. validate_response (r\<lparr>json := j\<rparr>) = Inl (DebankError (JString (resp_text r))))) \<and>
   (validate_response r = Inl JSONDecodeError \<longrightarrow> status_code r = 200 \<and> json r = None)"
proof (intro conjI impI allI)
  fix j
  assume "status_code r \<noteq> 200"
  then show "validate_response (r\<lparr>json := j\<rparr>) = Inl (DebankError (JString (resp_text r)))"
    by (simp add: validate_response_def)
next
  assume a: "validate_response r = Inl JSONDecodeError"
  show "status_code r = 200"
    using a by (auto simp: validate_response_def split: if_splits)
  show "json r = None"
    using a py_contains_not_decode_error py_getitem_not_decode_error
    by (auto simp: validate_response_def resp_json_def
          split: if_splits option.splits sum.splits bool.splits)
qed

theorem validate_response_decodes_only_on_200_witness:
  "validate_response \<lparr>status_code = 403, resp_text = ''<html>Forbidden</html>'', json = None\<rparr>
     = Inl (DebankError (JString ''<html>Forbidden</html>''))"
  using validate_response_decodes_only_on_200 [of
      "\<lparr>status_code = 403, resp_text = ''<html>Forbidden</html>'', json = None\<rparr>"]
  by simp

section \<open>Properties of the accounts file's reading\<close>

lemma split_maxsplit1_first:
  "sep \<notin> set a \<Longrightarrow> split_maxsplit1 sep (a @ sep # b) = (a, b)"
  by (induction a) (auto simp: split_maxsplit1_def)

text \<open>
  C9. A line with a colon is cut at its first colon: the secret is what stands before it
  and the proxy is all that follows, further colons included. A line without a colon is
  the secret, with no proxy.
\<close>

theorem format_account_first_colon:
  "(CHR '':'' \<notin> set secret \<longrightarrow>
      format_account (secret @ CHR '':'' # rest) = (secret, Some rest)) \<and>
   (CHR '':'' \<notin> set line \<longrightarrow> format_account line = (line, None)) \<and>
   (CHR '':'' \<in> set line \<longrightarrow>
      (\<exists>secret rest. line = secret @ CHR '':'' # rest \<and> CHR '':'' \<notin> set secret \<and>
         format_account line = (secret, Some rest)))"
proof (intro conjI impI)
  assume "CHR '':'' \<notin> set line"
  then show "format_account line = (line, None)"
    by (simp add: format_account_def)
next
  assume a: "CHR '':'' \<notin> set secret"
  then show "format_account (secret @ CHR '':'' # rest) = (secret, Some rest)"
    by (simp add: format_account_def split_maxsplit1_first)
next
  assume "CHR '':'' \<in> set line"
  then obtain secret rest where l: "line = secret @ CHR '':'' # rest" and n: "CHR '':'' \<notin> set secret"
    by (meson split_list_first)
  then have "format_account line = (secret, Some rest)"
    by (simp add: format_account_def split_maxsplit1_first)
  with l n show "\<exists>secret rest. line = secret @ CHR '':'' # rest \<and> CHR '':'' \<notin> set secret \<and>
         format_account line = (secret, Some rest)" by blast
qed

theorem format_account_first_colon_witness:
  "format_account ''0xabc:http://user:pw@host:8080'' =
     (''0xabc'', Some ''http://user:pw@host:8080'') \<and>
   format_account ''0xdef'' = (''0xdef'', None)"
  using format_account_first_colon [of "''0xabc''" "''http://user:pw@host:8080''" "''0xdef''"]
  by simp

section \<open>Properties of the badge catalog\<close>

lemma hkeys_simps [simp]: "hkeys [] = []" "hkeys ((k, v) # d) = py_hash_key k # hkeys d"
  "hkeys (d @ e) = hkeys d @ hkeys e"
  by (simp_all add: hkeys_def)

lemma dict_set_fresh: "py_hash_key k \<notin> set (hkeys d) \<Longrightarrow> dict_set d k v = d @ [(k, v)]"
  by (induction d) (auto split: prod.splits)

lemma hkeys_dict_set: "set (hkeys (dict_set d k v)) = insert (py_hash_key k) (set (hkeys d))"
  by (induction d) (auto split: if_splits)

lemma distinct_dict_set: "distinct (hkeys d) \<Longrightarrow> distinct (hkeys (dict_set d k v))"
  by (induction d) (auto simp: hkeys_dict_set)

lemma keys_dict_set: "x \<in> set (dict_set d k v) \<Longrightarrow> fst x = k \<or> fst x \<in> fst ` set d"
  by (induction d) (force split: if_splits)+

lemma dict_get_dict_set:
  "dict_get (dict_set d k v) k' = (if py_hash_key k = py_hash_key k' then Some v else dict_get d k')"
  by (induction d) auto

lemma dict_get_append:
  "dict_get (d @ e) k = (case dict_get d k of Some v \<Rightarrow> Some v | None \<Rightarrow> dict_get e k)"
  by (induction d) auto

lemma dict_of_simps [simp]: "dict_of d [] = d" "dict_of d ((k, v) # pairs) = dict_of (dict_set d k v) pairs"
  by (simp_all add: dict_of_def)

lemma hkeys_dict_of: "set (hkeys (dict_of d pairs)) = set (hkeys d) \<union> set (hkeys pairs)"
  by (induction pairs arbitrary: d) (auto simp: hkeys_dict_set)

lemma distinct_dict_of: "distinct (hkeys d) \<Longrightarrow> distinct (hkeys (dict_of d pairs))"
  by (induction pairs arbitrary: d) (auto simp: distinct_dict_set)

lemma keys_dict_of: "x \<in> set (dict_of d pairs) \<Longrightarrow> fst x \<in> fst ` set d \<union> fst ` set pairs"
proof (induction pairs arbitrary: d)
  case Nil
  then show ?case by simp
next
  case (Cons kv pairs)
  obtain k v where kv: "kv = (k, v)" by (cases kv)
  with Cons.prems have "x \<in> set (dict_of (dict_set d k v) pairs)" by simp
  then have "fst x \<in> fst ` set (dict_set d k v) \<union> fst ` set pairs" by (rule Cons.IH)
  then show ?case
    using kv keys_dict_set [of _ d k v] by force
qed

lemma dict_of_distinct: "distinct (hkeys (d @ pairs)) \<Longrightarrow> dict_of d pairs = d @ pairs"
  by (induction pairs arbitrary: d) (auto simp: dict_set_fresh)

lemma dict_get_dict_of:
  "dict_get (dict_of d pairs) k =
     (case dict_get (rev pairs) k of Some v \<Rightarrow> Some v | None \<Rightarrow> dict_get d k)"
proof (induction pairs arbitrary: d)
  case Nil
  then show ?case by simp
next
  case (Cons kv pairs)
  obtain k' v' where kv: "kv = (k', v')" by (cases kv)
  show ?case
    using Cons.IH [of "dict_set d k' v'"] kv
    by (simp add: dict_get_append dict_get_dict_set split: option.splits)
qed

lemma dict_comprehension_pairs:
  "dict_comprehension items d = Inr c \<Longrightarrow>
     \<exists>pairs. list_all2 (\<lambda>badge kv. py_getitem badge ''id'' = Inr (fst kv) \<and>
                  py_getitem badge ''name'' = Inr (snd kv) \<and> py_hash_key (fst kv) \<noteq> None) items pairs \<and>
             c = dict_of d pairs"
proof (induction items arbitrary: d)
  case Nil
  then show ?case by simp
next
  case (Cons badge items)
  from Cons.prems obtain k v where k: "py_getitem badge ''id'' = Inr k"
    and v: "py_getitem badge ''name'' = Inr v" and h: "py_hash_key k \<noteq> None"
    and r: "dict_comprehension items (dict_set d k v) = Inr c"
    by (auto simp: bind_err_def split: sum.splits if_splits)
  from Cons.IH [OF r] obtain pairs where
    "list_all2 (\<lambda>badge kv. py_getitem badge ''id'' = Inr (fst kv) \<and>
                  py_getitem badge ''name'' = Inr (snd kv) \<and> py_hash_key (fst kv) \<noteq> None) items pairs"
    and "c = dict_of (dict_set d k v) pairs" by blast
  with k v h show ?case
    by (intro exI [of _ "(k, v) # pairs"]) simp
qed

lemma badge_list_Inr:
  assumes "badge_list env s = (Inr catalog, s')"
  shows "\<exists>response badges items.
     send env (badge_list_request env) (world s) = (Inr response, world s') \<and>
     data_field response ''badge_list'' = Inr badges \<and> py_iter badges = Inr items \<and>
     dict_comprehension items [] = Inr catalog"
  using assms
  by (auto simp: badge_list_def io_bind_def io_lift_def http_def emit_def bind_err_def
        split: sum.splits prod.splits option.splits)

text \<open>\<^verbatim>\<open>badge_list\<close> returns on every response whose badge list is a list of objects
  with a hashable \<^verbatim>\<open>id\<close> and a string \<^verbatim>\<open>name\<close>, whatever its status.\<close>

lemma names_of_well_formed:
  "list_all2 (\<lambda>badge kn. py_getitem badge ''id'' = Inr (fst kn) \<and>
       py_getitem badge ''name'' = Inr (JString (snd kn)) \<and> py_hash_key (fst kn) \<noteq> None) items pairs \<Longrightarrow>
     names_of items = Inr (map (\<lambda>kn. JString (snd kn)) pairs)"
  by (induction items pairs rule: list_all2_induct) (simp_all add: bind_err_def)

lemma join_names_strings: "join_names (map (\<lambda>kn. JString (snd kn)) pairs) = Inr (map snd pairs)"
  by (induction pairs) (simp_all add: bind_err_def)

lemma dict_comprehension_well_formed:
  "list_all2 (\<lambda>badge kn. py_getitem badge ''id'' = Inr (fst kn) \<and>
       py_getitem badge ''name'' = Inr (JString (snd kn)) \<and> py_hash_key (fst kn) \<noteq> None) items pairs \<Longrightarrow>
     dict_comprehension items d = Inr (dict_of d (map (\<lambda>kn. (fst kn, JString (snd kn))) pairs))"
  by (induction items pairs arbitrary: d rule: list_all2_induct) (simp_all add: bind_err_def)

lemma badge_list_returns:
  assumes "async_client env None = None"
    and "send env (badge_list_request env) (world s) = (Inr response, w')"
    and "data_field response ''badge_list'' = Inr (JArray items)"
    and "list_all2 (\<lambda>badge kn. py_getitem badge ''id'' = Inr (fst kn) \<and>
       py_getitem badge ''name'' = Inr (JString (snd kn)) \<and> py_hash_key (fst kn) \<noteq> None) items pairs"
  shows "badge_list env s =
     (Inr (dict_of [] (map (\<lambda>kn. (fst kn, JString (snd kn))) pairs)),
      s\<lparr>world := w', trace := trace s @
         [Call (badge_list_request env) (Inr response),
          Log (Info_found (length items) (map snd pairs))]\<rparr>)"
  using assms(1-3) names_of_well_formed [OF assms(4)] dict_comprehension_well_formed [OF assms(4), of "[]"]
  by (simp add: badge_list_def io_bind_def io_lift_def http_def emit_def bind_err_def
        join_names_strings)

text \<open>
  C8. When \<^verbatim>\<open>badge_list\<close> returns a catalog, the response's badge list gave a list of
  (id, name) pairs, one per badge in order, and: the catalog's keys are the ids, as sets
  under Python's equality of keys, and each key is one of the ids; no key stands twice;
  looking an id up gives the name of the last badge with that id; when no two badges have
  equal ids the catalog is exactly the list of pairs, so nothing is dropped and each id
  maps to its badge's name; and when the ids are integers the key set is the id set.
\<close>

theorem badge_list_catalog:
  assumes "badge_list env s = (Inr catalog, s')"
  shows "\<exists>response badges items pairs.
     send env (badge_list_request env) (world s) = (Inr response, world s') \<and>
     data_field response ''badge_list'' = Inr badges \<and> py_iter badges = Inr items \<and>
     list_all2 (\<lambda>badge kv. py_getitem badge ''id'' = Inr (fst kv) \<and>
                  py_getitem badge ''name'' = Inr (snd kv)) items pairs \<and>
     set (hkeys catalog) = set (hkeys pairs) \<and>
     fst ` set catalog \<subseteq> fst ` set pairs \<and>
     distinct (hkeys catalog) \<and>
     (\<forall>k. dict_get catalog k = dict_get (rev pairs) k) \<and>
     (distinct (hkeys pairs) \<longrightarrow> catalog = pairs) \<and>
     ((\<forall>kv \<in> set pairs. \<exists>i. fst kv = JInt i) \<longrightarrow> fst ` set catalog = fst ` set pairs)"
proof -
  from badge_list_Inr [OF assms] obtain response badges items where
    a: "send env (badge_list_request env) (world s) = (Inr response, world s')"
       "data_field response ''badge_list'' = Inr badges" "py_iter badges = Inr items"
    and c: "dict_comprehension items [] = Inr catalog" by blast
  from dict_comprehension_pairs [OF c] obtain pairs where
    p: "list_all2 (\<lambda>badge kv. py_getitem badge ''id'' = Inr (fst kv) \<and>
                  py_getitem badge ''name'' = Inr (snd kv) \<and> py_hash_key (fst kv) \<noteq> None) items pairs"
    and cat: "catalog = dict_of [] pairs" by blast
  have p': "list_all2 (\<lambda>badge kv. py_getitem badge ''id'' = Inr (fst kv) \<and>
                  py_getitem badge ''name'' = Inr (snd kv)) items pairs"
    using p by (rule list_all2_mono) simp
  have k1: "set (hkeys catalog) = set (hkeys pairs)"
    by (simp add: cat hkeys_dict_of)
  have k2: "fst ` set catalog \<subseteq> fst ` set pairs"
    using keys_dict_of [of _ "[]" pairs] by (auto simp: cat)
  have k3: "distinct (hkeys catalog)"
    by (simp add: cat distinct_dict_of)
  have k4: "\<forall>k. dict_get catalog k = dict_get (rev pairs) k"
    by (simp add: cat dict_get_dict_of split: option.splits)
  have k5: "distinct (hkeys pairs) \<longrightarrow> catalog = pairs"
    using dict_of_distinct [of "[]" pairs] by (simp add: cat)
  have k6: "(\<forall>kv \<in> set pairs. \<exists>i. fst kv = JInt i) \<longrightarrow> fst ` set catalog = fst ` set pairs"
  proof (intro impI equalityI k2 subsetI)
    fix k
    assume ints: "\<forall>kv \<in> set pairs. \<exists>i. fst kv = JInt i" and "k \<in> fst ` set pairs"
    then obtain kv where kv: "kv \<in> set pairs" "k = fst kv" by blast
    with ints obtain i where ki: "k = JInt i" by metis
    from kv have "py_hash_key k \<in> set (hkeys pairs)"
      by (simp add: hkeys_def)
    with k1 have "py_hash_key k \<in> set (hkeys catalog)" by simp
    then obtain kv' where kv': "kv' \<in> set catalog" "py_hash_key (fst kv') = py_hash_key k"
      by (auto simp: hkeys_def)
    define k' where "k' = fst kv'"
    from kv' have k': "k' \<in> fst ` set catalog" and h: "py_hash_key k' = py_hash_key k"
      by (simp_all add: k'_def)
    from k' k2 have "k' \<in> fst ` set pairs" by blast
    with ints obtain i' where "k' = JInt i'" by force
    with h ki have "k' = k" by simp
    with k' show "k \<in> fst ` set catalog" by simp
  qed
  from a p' k1 k2 k3 k4 k5 k6 show ?thesis by blast
qed

theorem badge_list_catalog_witness:
  "fst (badge_list
     (scripted [Inr \<lparr>status_code = 200, resp_text = ''...'',
        json = Some (JObject [(''data'', JObject [(''badge_list'',
           JArray [JObject [(''id'', JInt 1), (''name'', JString ''Genesis'')],
                   JObject [(''id'', JInt 2), (''name'', JString ''Pioneer'')]])])])\<rparr>])
     \<lparr>world = 0, trace = []\<rparr>)
   = Inr [(JInt 1, JString ''Genesis''), (JInt 2, JString ''Pioneer'')] \<and>
   distinct (hkeys [(JInt 1, JString ''Genesis''), (JInt 2, JString ''Pioneer'')])"
proof -
  let ?r = "\<lparr>status_code = 200, resp_text = ''...'',
        json = Some (JObject [(''data'', JObject [(''badge_list'',
           JArray [JObject [(''id'', JInt 1), (''name'', JString ''Genesis'')],
                   JObject [(''id'', JInt 2), (''name'', JString ''Pioneer'')]])])])\<rparr>"
  have e: "badge_list (scripted [Inr ?r]) \<lparr>world = 0, trace = []\<rparr> =
     (Inr [(JInt 1, JString ''Genesis''), (JInt 2, JString ''Pioneer'')],
      \<lparr>world = Suc 0,
       trace = [Call (badge_list_request (scripted [Inr ?r])) (Inr ?r),
                Log (Info_found 2 [''Genesis'', ''Pioneer''])]\<rparr>)"
    by (simp add: badge_list_def io_bind_def io_lift_def http_def emit_def bind_err_def
          scripted_def badge_list_request_def data_field_def resp_json_def)
  from badge_list_catalog [OF e]
  have "distinct (hkeys [(JInt 1, JString ''Genesis''), (JInt 2, JString ''Pioneer'')])"
    by blast
  with e show ?thesis by simp
qed

section \<open>Properties of login\<close>






section \<open>Properties of the mint loop\<close>






section \<open>Properties of the worker loop\<close>






















section \<open>The badge-list call and the validation gate\<close>

text \<open>\<^verbatim>\<open>badge_list\<close> never looks at the status of its response.\<close>

lemma badge_list_ignores_status:
  "fst (badge_list (env\<lparr>send := \<lambda>req w. (Inr (r\<lparr>status_code := c\<rparr>), w)\<rparr>) s) =
   fst (badge_list (env\<lparr>send := \<lambda>req w. (Inr r, w)\<rparr>) s)"
  by (simp add: badge_list_def io_bind_def io_lift_def http_def emit_def data_field_def
        resp_json_def badge_list_request_def split: sum.splits option.splits prod.splits)

text \<open>
  C5 fails for the badge-list call: its response does not pass through
  \<^verbatim>\<open>validate_response\<close>. A response with status 429 and an \<^verbatim>\<open>error_msg\<close> body, which the
  gate turns into a \<open>DebankError\<close>, makes \<^verbatim>\<open>badge_list\<close> raise a \<open>KeyError\<close> for
  \<^verbatim>\<open>data\<close> instead; and a response with status 200 that carries both an \<^verbatim>\<open>error_msg\<close>
  and a badge list, which the gate rejects, gives a catalog.
\<close>

theorem badge_list_not_validated:
  "validate_response rate_limited = Inl (DebankError (JString (resp_text rate_limited))) \<and>
   fst (badge_list (scripted [Inr rate_limited]) \<lparr>world = 0, trace = []\<rparr>) = Inl (KeyError ''data'') \<and>
   validate_response refused_list = Inl (DebankError (JString ''not login'')) \<and>
   fst (badge_list (scripted [Inr refused_list]) \<lparr>world = 0, trace = []\<rparr>)
     = Inr [(JInt 1, JString ''Genesis'')]"
  by (simp add: badge_list_def badge_list_request_def io_defs scripted_def rate_limited_def
        refused_list_def)

section \<open>Properties of the dispatcher\<close>

lemma sum_weight_update:
  assumes "i < length ts"
  shows "sum_list (map weight (ts[i := t])) + weight (ts ! i) = sum_list (map weight ts) + weight t"
proof -
  have "sum_list (map weight (ts[i := t])) = sum_list ((map weight ts)[i := weight t])"
    by (simp add: map_update)
  also have "\<dots> = sum_list (map weight ts) + weight t - (map weight ts) ! i"
    using assms by (simp add: sum_list_update)
  finally have "sum_list (map weight (ts[i := t])) = sum_list (map weight ts) + weight t - weight (ts ! i)"
    using assms by simp
  moreover have "weight (ts ! i) \<le> sum_list (map weight ts)"
    using assms by (simp add: member_le_sum_list)
  ultimately show ?thesis by simp
qed

lemma count_in_try_update:
  assumes "i < length ts"
  shows "length (filter (\<lambda>t. weight t = 2) (ts[i := t])) + (if weight (ts ! i) = 2 then 1 else 0) =
         length (filter (\<lambda>t. weight t = 2) ts) + (if weight t = 2 then 1 else 0)"
  using assms
proof (induction ts arbitrary: i)
  case Nil
  then show ?case by simp
next
  case (Cons x ts)
  then show ?case by (cases i) auto
qed


lemma of_task_append [simp]: "of_task j (ps @ rs) = of_task j ps @ of_task j rs"
  by (simp add: of_task_def)

lemma of_task_single [simp]: "of_task j [(i, x)] = (if i = j then [(i, x)] else [])"
  by (simp add: of_task_def)

lemma step_consistent:
  assumes ok: "\<forall>item \<in> set q. \<exists>ad. prepare env item = Inr ad"
    and inv: "consistent n q c"
    and st: "step env BADGE_IDS i c = Some c'"
  shows "consistent n q c' \<and> Suc (steps_left c') = steps_left c"
proof -
  from st have i: "i < length (tasks c)"
    by (auto simp: step_def split: if_splits)
  from inv have fr: "failure c = None" and len: "length (tasks c) = n"
    and tq: "map snd (taken c) @ queue c = q"
    and ret: "Returned \<in> set (tasks c) \<longrightarrow> queue c = []"
    and per: "\<forall>j<n. of_task j (taken c) = of_task j (finished c) @ current (tasks c ! j) j"
    and cnt: "length (taken c) = length (finished c) + length (filter (\<lambda>t. weight t = 2) (tasks c))"
    and bd: "\<forall>p \<in> set (taken c) \<union> set (finished c). fst p < n"
    by (simp_all add: consistent_def)
  show ?thesis
  proof (cases "tasks c ! i")
    case AtLoopHead
    show ?thesis
    proof (cases "queue c")
      case Nil
      with st AtLoopHead i fr have c': "c' = c\<lparr>tasks := (tasks c)[i := Returned]\<rparr>"
        by (simp add: step_def)
      have a: "failure c' = None"
        unfolding c' using fr by simp
      have b: "\<forall>j<n. of_task j (taken c') = of_task j (finished c') @ current (tasks c' ! j) j"
      proof (intro allI impI)
        fix j assume "j < n"
        with per have "of_task j (taken c) = of_task j (finished c) @ current (tasks c ! j) j" by simp
        moreover have "current (tasks c' ! j) j = current (tasks c ! j) j"
          using AtLoopHead i by (cases "j = i") (simp_all add: c' current_def)
        ultimately show "of_task j (taken c') = of_task j (finished c') @ current (tasks c' ! j) j"
          by (simp add: c')
      qed
      have d: "length (filter (\<lambda>t. weight t = 2) (tasks c')) = length (filter (\<lambda>t. weight t = 2) (tasks c))"
        using count_in_try_update [OF i, of Returned] AtLoopHead by (simp add: c' weight_def)
      have e: "Suc (sum_list (map weight (tasks c'))) = sum_list (map weight (tasks c))"
        using sum_weight_update [OF i, of Returned] AtLoopHead by (simp add: c' weight_def)
      from a b d e len tq cnt bd Nil show ?thesis
        by (simp add: consistent_def steps_left_def c')
    next
      case (Cons item rest)
      from tq Cons have "item \<in> set q" by auto
      with ok obtain account debank where p: "prepare env item = Inr (account, debank)" by fastforce
      with st AtLoopHead i fr Cons have c': "c' = c\<lparr>queue := rest, taken := taken c @ [(i, item)],
              tasks := (tasks c)[i := InTry item account debank]\<rparr>"
        by (simp add: step_def)
      have a: "failure c' = None"
        unfolding c' using fr by simp
      from ret Cons have nr: "Returned \<notin> set (tasks c)" by auto
      have "set (tasks c') \<subseteq> insert (InTry item account debank) (set (tasks c))"
        unfolding c' by (simp add: set_update_subset_insert)
      with nr have r: "Returned \<notin> set (tasks c')" by auto
      have b: "\<forall>j<n. of_task j (taken c') = of_task j (finished c') @ current (tasks c' ! j) j"
      proof (intro allI impI)
        fix j assume j: "j < n"
        with per have h: "of_task j (taken c) = of_task j (finished c) @ current (tasks c ! j) j" by simp
        show "of_task j (taken c') = of_task j (finished c') @ current (tasks c' ! j) j"
        proof (cases "j = i")
          case True
          with h AtLoopHead i show ?thesis by (simp add: c' current_def)
        next
          case False
          with h i show ?thesis by (simp add: c')
        qed
      qed
      have d: "length (filter (\<lambda>t. weight t = 2) (tasks c')) = Suc (length (filter (\<lambda>t. weight t = 2) (tasks c)))"
        using count_in_try_update [OF i, of "InTry item account debank"] AtLoopHead
        by (simp add: c' weight_def)
      have e: "sum_list (map weight (tasks c')) = Suc (sum_list (map weight (tasks c)))"
        using sum_weight_update [OF i, of "InTry item account debank"] AtLoopHead
        by (simp add: c' weight_def)
      from a b d e r len tq cnt bd i Cons show ?thesis
        by (auto simp: consistent_def steps_left_def c')
    qed
  next
    case (InTry item account debank)
    with st i fr have c': "c' = c\<lparr>sys_state := try_except env BADGE_IDS account debank (sys_state c),
                     finished := finished c @ [(i, item)],
                     tasks := (tasks c)[i := AtLoopHead]\<rparr>"
      by (simp add: step_def)
    have a: "failure c' = None"
      unfolding c' using fr by simp
    have "set (tasks c') \<subseteq> insert AtLoopHead (set (tasks c))"
      unfolding c' by (simp add: set_update_subset_insert)
    with ret have r: "Returned \<in> set (tasks c') \<longrightarrow> queue c' = []"
      by (auto simp: c')
    have b: "\<forall>j<n. of_task j (taken c') = of_task j (finished c') @ current (tasks c' ! j) j"
    proof (intro allI impI)
      fix j assume j: "j < n"
      with per have h: "of_task j (taken c) = of_task j (finished c) @ current (tasks c ! j) j" by simp
      show "of_task j (taken c') = of_task j (finished c') @ current (tasks c' ! j) j"
      proof (cases "j = i")
        case True
        with h InTry i show ?thesis by (simp add: c' current_def)
      next
        case False
        with h i show ?thesis by (simp add: c')
      qed
    qed
    have d: "Suc (length (filter (\<lambda>t. weight t = 2) (tasks c'))) = length (filter (\<lambda>t. weight t = 2) (tasks c))"
      using count_in_try_update [OF i, of AtLoopHead] InTry by (simp add: c' weight_def)
    have e: "Suc (sum_list (map weight (tasks c'))) = sum_list (map weight (tasks c))"
      using sum_weight_update [OF i, of AtLoopHead] InTry by (simp add: c' weight_def)
    from a b d e r len tq cnt bd i show ?thesis
      by (auto simp: consistent_def steps_left_def c')
  next
    case Returned
    with st i show ?thesis by (auto simp: step_def split: if_splits)
  next
    case (Raised e)
    with st i show ?thesis by (auto simp: step_def split: if_splits)
  qed
qed


lemma run_consistent:
  assumes ok: "\<forall>item \<in> set q. \<exists>ad. prepare env item = Inr ad"
  shows "consistent n q c \<Longrightarrow> run env BADGE_IDS sched c = Some c' \<Longrightarrow>
           consistent n q c' \<and> length sched + steps_left c' = steps_left c"
proof (induction sched arbitrary: c)
  case Nil
  then show ?case by simp
next
  case (Cons i sched)
  from Cons.prems(2) obtain c1 where s: "step env BADGE_IDS i c = Some c1"
    and r: "run env BADGE_IDS sched c1 = Some c'"
    by (auto split: option.splits)
  from step_consistent [OF ok Cons.prems(1) s]
  have c1: "consistent n q c1" and m: "Suc (steps_left c1) = steps_left c" by simp_all
  from Cons.IH [OF c1 r] m show ?case by simp
qed

lemma consistent_start: "consistent n q (start s q n)"
  by (simp add: consistent_def start_def of_task_def current_def weight_def)

lemma steps_left_start: "steps_left (start s q n) = 2 * length q + n"
  by (simp add: steps_left_def start_def weight_def sum_list_replicate)

lemma all_returned_weight:
  "list_all is_returned ts \<Longrightarrow> sum_list (map weight ts) = 0 \<and> filter (\<lambda>t. weight t = 2) ts = []"
proof (induction ts)
  case Nil
  then show ?case by simp
next
  case (Cons t ts)
  then show ?case by (cases t) (simp_all add: weight_def)
qed

lemma all_returned_nth: "list_all is_returned ts \<Longrightarrow> j < length ts \<Longrightarrow> ts ! j = Returned"
proof -
  assume "list_all is_returned ts" and "j < length ts"
  then have "is_returned (ts ! j)" by (simp add: list_all_length)
  then show ?thesis by (cases "ts ! j") simp_all
qed

text \<open>
  When every queued line gives an account and a client, a run of \<open>n\<close> loops that ends has
  ended normally, with the queue empty: the items were dequeued in the order of the input,
  each once; every task finished exactly the items it dequeued, in that order; and the run
  took two steps for each item and one for each loop.
\<close>

theorem gather_exactly_once:
  assumes ok: "\<forall>item \<in> set q. \<exists>ad. prepare env item = Inr ad"
    and n: "0 < n"
    and g: "gather env BADGE_IDS sched (start s q n) = Some (r, c)"
  shows "r = Inr () \<and> queue c = [] \<and> map snd (taken c) = q \<and>
         length (finished c) = length q \<and>
         (\<forall>j. of_task j (finished c) = of_task j (taken c)) \<and>
         length sched = 2 * length q + n"
proof -
  from g obtain ru: "run env BADGE_IDS sched (start s q n) = Some c"
    and out: "(case failure c of
             Some e \<Rightarrow> Some (Inl e, c)
           | None \<Rightarrow> if list_all is_returned (tasks c) then Some (Inr (), c) else None) = Some (r, c)"
    by (auto simp: gather_def split: option.splits if_splits)
  from run_consistent [OF ok consistent_start ru]
  have inv: "consistent n q c" and m: "length sched + steps_left c = steps_left (start s q n)"
    by simp_all
  from inv have fr: "failure c = None" and len: "length (tasks c) = n"
    and tq: "map snd (taken c) @ queue c = q"
    and ret: "Returned \<in> set (tasks c) \<longrightarrow> queue c = []"
    and per: "\<forall>j<n. of_task j (taken c) = of_task j (finished c) @ current (tasks c ! j) j"
    and cnt: "length (taken c) = length (finished c) + length (filter (\<lambda>t. weight t = 2) (tasks c))"
    and bd: "\<forall>p \<in> set (taken c) \<union> set (finished c). fst p < n"
    by (simp_all add: consistent_def)
  from out fr have r: "r = Inr ()" and all: "list_all is_returned (tasks c)"
    by (auto split: if_splits)
  from all n len have "tasks c ! 0 = Returned" by (simp add: all_returned_nth)
  with n len have "Returned \<in> set (tasks c)" by (metis nth_mem)
  with ret have qe: "queue c = []" by simp
  with tq have t: "map snd (taken c) = q" by simp
  from all_returned_weight [OF all] cnt have "length (finished c) = length (taken c)" by simp
  with t have f: "length (finished c) = length q" by (metis length_map)
  have p: "\<forall>j. of_task j (finished c) = of_task j (taken c)"
  proof
    fix j
    show "of_task j (finished c) = of_task j (taken c)"
    proof (cases "j < n")
      case True
      with all len have "tasks c ! j = Returned" by (simp add: all_returned_nth)
      with per True show ?thesis by (simp add: current_def)
    next
      case False
      with bd have "of_task j (finished c) = []" and "of_task j (taken c) = []"
        by (auto simp: of_task_def filter_empty_conv)
      then show ?thesis by simp
    qed
  qed
  from all_returned_weight [OF all] qe have "steps_left c = 0"
    by (simp add: steps_left_def)
  with m have l: "length sched = 2 * length q + n"
    by (simp add: steps_left_start)
  from r qe t f p l show ?thesis by blast
qed


lemma run_append:
  "run env BADGE_IDS (a @ b) c =
     (case run env BADGE_IDS a c of None \<Rightarrow> None | Some c' \<Rightarrow> run env BADGE_IDS b c')"
  by (induction a arbitrary: c) (simp_all split: option.splits)

lemma run_drain:
  assumes n: "0 < n"
  shows "\<forall>item \<in> set (queue c). \<exists>ad. prepare env item = Inr ad \<Longrightarrow>
         tasks c = replicate n AtLoopHead \<Longrightarrow>
         \<exists>c'. run env BADGE_IDS (concat (replicate (length (queue c)) [0, 0])) c = Some c' \<and>
              tasks c' = replicate n AtLoopHead \<and> queue c' = [] \<and> failure c' = failure c"
proof (induction "queue c" arbitrary: c)
  case Nil
  then show ?case by simp
next
  case (Cons item rest)
  from Cons.hyps(2) [symmetric] have q: "queue c = item # rest" .
  with Cons.prems(1) obtain account debank where p: "prepare env item = Inr (account, debank)"
    by fastforce
  from n obtain m where m: "n = Suc m" by (cases n) auto
  let ?c1 = "c\<lparr>queue := rest, taken := taken c @ [(0, item)],
              tasks := (tasks c)[0 := InTry item account debank]\<rparr>"
  let ?c2 = "?c1\<lparr>sys_state := try_except env BADGE_IDS account debank (sys_state ?c1),
                 finished := finished ?c1 @ [(0, item)],
                 tasks := (tasks ?c1)[0 := AtLoopHead]\<rparr>"
  have s1: "step env BADGE_IDS 0 c = Some ?c1"
    using q p Cons.prems(2) n by (simp add: step_def)
  have s2: "step env BADGE_IDS 0 ?c1 = Some ?c2"
    using Cons.prems(2) by (simp add: step_def m)
  have t2: "tasks ?c2 = replicate n AtLoopHead"
    using Cons.prems(2) by (simp add: m)
  have q2: "rest = queue ?c2" by simp
  have ok2: "\<forall>item \<in> set (queue ?c2). \<exists>ad. prepare env item = Inr ad"
    using Cons.prems(1) q by simp
  from Cons.hyps(1) [OF q2 ok2 t2] obtain c' where
    r: "run env BADGE_IDS (concat (replicate (length rest) [0, 0])) ?c2 = Some c'"
    and t: "tasks c' = replicate n AtLoopHead" and e: "queue c' = []"
    and f: "failure c' = failure ?c2"
    by auto
  have "run env BADGE_IDS (concat (replicate (length (queue c)) [0, 0])) c = Some c'"
    using s1 s2 r by (simp add: q)
  with t e f show ?case by auto
qed

lemma run_return:
  "tasks c = replicate k Returned @ replicate m AtLoopHead \<Longrightarrow> queue c = [] \<Longrightarrow>
     \<exists>c'. run env BADGE_IDS [k..<k + m] c = Some c' \<and> tasks c' = replicate (k + m) Returned \<and>
          failure c' = failure c"
proof (induction m arbitrary: k c)
  case 0
  then show ?case by simp
next
  case (Suc m)
  let ?c1 = "c\<lparr>tasks := (tasks c)[k := Returned]\<rparr>"
  have s: "step env BADGE_IDS k c = Some ?c1"
    using Suc.prems by (simp add: step_def nth_append)
  have t1: "tasks ?c1 = replicate (Suc k) Returned @ replicate m AtLoopHead"
    using Suc.prems(1) by (simp add: list_update_append replicate_append_same)
  have q1: "queue ?c1 = []" using Suc.prems(2) by simp
  from Suc.IH [OF t1 q1] obtain c' where
    r: "run env BADGE_IDS [Suc k..<Suc k + m] ?c1 = Some c'"
    and t: "tasks c' = replicate (Suc k + m) Returned" and f: "failure c' = failure ?c1" by blast
  have "[k..<k + Suc m] = k # [Suc k..<Suc k + m]"
    by (simp add: upt_conv_Cons)
  with s r have "run env BADGE_IDS [k..<k + Suc m] c = Some c'" by simp
  with t f show ?case by auto
qed

text \<open>Such a run exists: the first loop drains the queue, then every loop returns.\<close>

theorem gather_completes:
  assumes ok: "\<forall>item \<in> set q. \<exists>ad. prepare env item = Inr ad" and n: "0 < n"
  shows "\<exists>c. gather env BADGE_IDS (concat (replicate (length q) [0, 0]) @ [0..<n]) (start s q n)
              = Some (Inr (), c)"
proof -
  have "\<forall>item \<in> set (queue (start s q n)). \<exists>ad. prepare env item = Inr ad"
    using ok by (simp add: start_def)
  moreover have "tasks (start s q n) = replicate n AtLoopHead" by (simp add: start_def)
  ultimately obtain c1 where
    r1: "run env BADGE_IDS (concat (replicate (length (queue (start s q n))) [0, 0])) (start s q n) = Some c1"
    and t1: "tasks c1 = replicate n AtLoopHead" and q1: "queue c1 = []"
    and f1: "failure c1 = failure (start s q n)"
    using run_drain [OF n] by blast
  from t1 have "tasks c1 = replicate 0 Returned @ replicate n AtLoopHead" by simp
  from run_return [OF this q1] obtain c where
    r2: "run env BADGE_IDS [0..<n] c1 = Some c" and t2: "tasks c = replicate n Returned"
    and f2: "failure c = failure c1"
    by auto
  have fr: "failure c = None"
    using f1 f2 by (simp add: start_def)
  have all: "list_all is_returned (tasks c)"
    unfolding t2 by (simp add: list_all_iff)
  from r1 r2 have "run env BADGE_IDS (concat (replicate (length q) [0, 0]) @ [0..<n]) (start s q n) = Some c"
    by (simp add: run_append start_def)
  with fr all show ?thesis by (auto simp: gather_def)
qed


section \<open>Exceptions raised before the \<^verbatim>\<open>try\<close> statement\<close>

lemma step_keeps_failure:
  "failure c = Some e \<Longrightarrow> step env BADGE_IDS i c = Some c' \<Longrightarrow> failure c' = Some e"
  by (auto simp: step_def split: if_splits task.splits list.splits sum.splits)

lemma run_keeps_failure:
  "failure c = Some e \<Longrightarrow> run env BADGE_IDS sched c = Some c' \<Longrightarrow> failure c' = Some e"
proof (induction sched arbitrary: c)
  case Nil
  then show ?case by simp
next
  case (Cons i sched)
  from Cons.prems(2) obtain c1 where s: "step env BADGE_IDS i c = Some c1"
    and r: "run env BADGE_IDS sched c1 = Some c'"
    by (auto split: option.splits)
  from step_keeps_failure [OF Cons.prems(1) s] have "failure c1 = Some e" .
  from Cons.IH [OF this r] show ?case .
qed

lemma step_taken_grows:
  "step env BADGE_IDS i c = Some c' \<Longrightarrow> set (taken c) \<subseteq> set (taken c')"
  by (auto simp: step_def split: if_splits task.splits list.splits sum.splits)

lemma run_taken_grows:
  "run env BADGE_IDS sched c = Some c' \<Longrightarrow> set (taken c) \<subseteq> set (taken c')"
proof (induction sched arbitrary: c)
  case Nil
  then show ?case by simp
next
  case (Cons i sched)
  from Cons.prems obtain c1 where s: "step env BADGE_IDS i c = Some c1"
    and r: "run env BADGE_IDS sched c1 = Some c'"
    by (auto split: option.splits)
  from step_taken_grows [OF s] Cons.IH [OF r] show ?case by blast
qed

lemma step_never_done:
  assumes bad: "prepare env item = Inl e"
    and nd: "never_done item c"
    and st: "step env BADGE_IDS i c = Some c'"
  shows "never_done item c'"
proof -
  from st have i: "i < length (tasks c)"
    by (auto simp: step_def split: if_splits)
  from nd have nt: "\<And>a d. InTry item a d \<notin> set (tasks c)"
    and nf: "item \<notin> snd ` set (finished c)"
    by (simp_all add: never_done_def)
  show ?thesis
  proof (cases "tasks c ! i")
    case AtLoopHead
    show ?thesis
    proof (cases "queue c")
      case Nil
      with st AtLoopHead i have c': "c' = c\<lparr>tasks := (tasks c)[i := Returned]\<rparr>"
        by (simp add: step_def)
      have "set (tasks c') \<subseteq> insert Returned (set (tasks c))"
        unfolding c' by (simp add: set_update_subset_insert)
      with nt nf show ?thesis
        by (auto simp: never_done_def c')
    next
      case (Cons x rest)
      show ?thesis
      proof (cases "prepare env x")
        case (Inl e')
        with st AtLoopHead i Cons have t: "tasks c' = (tasks c)[i := Raised e']"
          and f: "finished c' = finished c"
          by (auto simp: step_def)
        have "set (tasks c') \<subseteq> insert (Raised e') (set (tasks c))"
          unfolding t by (simp add: set_update_subset_insert)
        with nt nf f show ?thesis
          by (auto simp: never_done_def)
      next
        case (Inr ad)
        obtain account debank where ad: "ad = (account, debank)" by (cases ad)
        from Inr bad have ne: "x \<noteq> item" by auto
        from st AtLoopHead i Cons Inr ad have t: "tasks c' = (tasks c)[i := InTry x account debank]"
          and f: "finished c' = finished c"
          by (auto simp: step_def)
        have "set (tasks c') \<subseteq> insert (InTry x account debank) (set (tasks c))"
          unfolding t by (simp add: set_update_subset_insert)
        with nt nf f ne show ?thesis
          by (auto simp: never_done_def)
      qed
    qed
  next
    case (InTry x account debank)
    with i have "InTry x account debank \<in> set (tasks c)" by (metis nth_mem)
    with nt have ne: "x \<noteq> item" by auto
    from st InTry i have t: "tasks c' = (tasks c)[i := AtLoopHead]"
      and f: "finished c' = finished c @ [(i, x)]"
      by (auto simp: step_def)
    have "set (tasks c') \<subseteq> insert AtLoopHead (set (tasks c))"
      unfolding t by (simp add: set_update_subset_insert)
    with nt nf f ne show ?thesis
      by (auto simp: never_done_def)
  next
    case Returned
    with st i show ?thesis by (auto simp: step_def split: if_splits)
  next
    case (Raised e')
    with st i show ?thesis by (auto simp: step_def split: if_splits)
  qed
qed

lemma run_never_done:
  assumes bad: "prepare env item = Inl e"
  shows "never_done item c \<Longrightarrow> run env BADGE_IDS sched c = Some c' \<Longrightarrow> never_done item c'"
proof (induction sched arbitrary: c)
  case Nil
  then show ?case by simp
next
  case (Cons i sched)
  from Cons.prems(2) obtain c1 where s: "step env BADGE_IDS i c = Some c1"
    and r: "run env BADGE_IDS sched c1 = Some c'"
    by (auto split: option.splits)
  from step_never_done [OF bad Cons.prems(1) s] have "never_done item c1" .
  from Cons.IH [OF this r] show ?case .
qed

lemma step_raises:
  assumes "prepare env item = Inl e"
  shows "step env BADGE_IDS i (start s (item # rest) n) =
     (if i < n
      then Some ((start s rest n)\<lparr>taken := [(i, item)],
                   tasks := (replicate n AtLoopHead)[i := Raised e], failure := Some e\<rparr>)
      else None)"
  using assms by (simp add: step_def start_def)

lemma gather_raises:
  assumes bad: "prepare env item = Inl e" and n: "0 < n"
    and g: "gather env BADGE_IDS sched (start s (item # rest) n) = Some out"
  shows "\<exists>c i. out = (Inl e, c) \<and> i < n \<and> (i, item) \<in> set (taken c) \<and>
               item \<notin> snd ` set (finished c)"
proof (cases sched)
  case Nil
  have "\<not> list_all is_returned (replicate n AtLoopHead)"
    using n by (cases n) simp_all
  with g Nil show ?thesis
    by (simp add: gather_def start_def)
next
  case (Cons i sched')
  let ?c1 = "(start s rest n)\<lparr>taken := [(i, item)],
                   tasks := (replicate n AtLoopHead)[i := Raised e], failure := Some e\<rparr>"
  from g obtain c where r: "run env BADGE_IDS sched (start s (item # rest) n) = Some c"
    by (auto simp: gather_def split: option.splits)
  with Cons have i: "i < n" and r1: "run env BADGE_IDS sched' ?c1 = Some c"
    by (auto simp: step_raises [OF bad] split: if_splits)
  have "set (tasks ?c1) \<subseteq> insert (Raised e) (set (replicate n AtLoopHead))"
    by (simp add: set_update_subset_insert)
  then have "never_done item ?c1"
    by (auto simp: never_done_def start_def)
  from run_never_done [OF bad this r1] have nd: "item \<notin> snd ` set (finished c)"
    by (simp add: never_done_def)
  from run_taken_grows [OF r1] have tk: "(i, item) \<in> set (taken c)" by auto
  have "failure ?c1 = Some e" by simp
  from run_keeps_failure [OF this r1] have f: "failure c = Some e" .
  from g r f have "out = (Inl e, c)"
    by (simp add: gather_def)
  with i tk nd show ?thesis by blast
qed

lemma main_raises:
  assumes "badge_list env s = (Inr BADGE_IDS, s')"
    and "prepare env (format_account line) = Inl e"
    and "main env (line # others) sched s = Some out"
  shows "\<exists>c i. out = Aborted e c \<and> i < 5 \<and> (i, format_account line) \<in> set (taken c) \<and>
               format_account line \<notin> snd ` set (finished c)"
proof -
  from assms(1,3) obtain r c where
    g: "gather env BADGE_IDS sched
          (start s' (format_account line # map format_account others) 5) = Some (r, c)"
    and o: "out = (case r of Inl e \<Rightarrow> Aborted e c | Inr u \<Rightarrow> Completed c)"
    by (auto simp: main_def split: option.splits sum.splits)
  from gather_raises [OF assms(2) _ g] obtain i where
    "r = Inl e" "i < 5" "(i, format_account line) \<in> set (taken c)"
    "format_account line \<notin> snd ` set (finished c)"
    by auto
  with o show ?thesis by auto
qed

lemma main_raises_at_once:
  assumes "badge_list env s = (Inr BADGE_IDS, s')"
    and "prepare env (format_account line) = Inl e" and "i < 5"
  shows "main env (line # others) [i] s =
     Some (Aborted e ((start s' (map format_account others) 5)
        \<lparr>taken := [(i, format_account line)],
          tasks := (replicate 5 AtLoopHead)[i := Raised e], failure := Some e\<rparr>))"
  using assms by (simp add: main_def gather_def step_raises)


lemma main_catalog_failed:
  "badge_list env s = (Inl e, s') \<Longrightarrow> main env accounts sched s = Some (CatalogFailed e s')"
  by (simp add: main_def)

text \<open>
  C6 fails where it speaks of deriving the credential and of constructing the client:
  both stand before the \<^verbatim>\<open>try\<close> statement. When the catalog was fetched and making
  the account or the client of the first line raises, every run that ends has ended with
  that exception, and there are such runs, whichever loop takes the line: the run never
  completes.
\<close>

theorem main_aborts_before_try:
  assumes "badge_list env s = (Inr BADGE_IDS, s')"
    and "prepare env (format_account line) = Inl e"
  shows "(\<forall>sched out. main env (line # others) sched s = Some out \<longrightarrow> (\<exists>c. out = Aborted e c)) \<and>
         (\<forall>i<5. \<exists>c. main env (line # others) [i] s = Some (Aborted e c))"
proof (intro conjI allI impI)
  fix sched out
  assume "main env (line # others) sched s = Some out"
  from main_raises [OF assms this] show "\<exists>c. out = Aborted e c" by blast
next
  fix i :: nat
  assume "i < 5"
  from main_raises_at_once [OF assms this]
  show "\<exists>c. main env (line # others) [i] s = Some (Aborted e c)" by blast
qed

theorem main_aborts_before_try_witness:
  "(\<exists>c. main (scripted [Inr badges_ok]) ['''', key_a] [0] \<lparr>world = 0, trace = []\<rparr> =
         Some (Aborted (LibraryError ''ValueError'') c)) \<and>
   (\<forall>sched c. main (scripted [Inr badges_ok]) ['''', key_a] sched \<lparr>world = 0, trace = []\<rparr>
      \<noteq> Some (Completed c))"
proof -
  let ?env = "scripted [Inr badges_ok]"
  let ?s = "\<lparr>world = 0 :: nat, trace = []\<rparr>"
  have "fst (badge_list ?env ?s) = Inr [(JInt 1, JString ''Genesis''), (JInt 2, JString ''Pioneer'')]"
    by (simp add: badge_list_def badge_list_request_def io_defs scripted_def sample_defs)
  then have b: "badge_list ?env ?s =
      (Inr [(JInt 1, JString ''Genesis''), (JInt 2, JString ''Pioneer'')], snd (badge_list ?env ?s))"
    by (simp add: prod_eq_iff)
  have p: "prepare ?env (format_account '''') = Inl (LibraryError ''ValueError'')"
    by (simp add: prepare_def bind_err_def format_account_def scripted_def sample_from_key_def)
  from main_aborts_before_try [OF b p, of "[key_a]"]
  show ?thesis by auto
qed

text \<open>
  C2 fails on an accounts file with a line whose secret gives no account (or whose proxy
  gives no client): every run that ends has ended with the exception raised for that
  line, whose pair was dequeued but went through no \<^verbatim>\<open>try\<close> statement; and the pairs
  other loops hold at that moment are dropped with them.
\<close>

theorem pairs_unprocessed_when_before_try_raises:
  assumes "badge_list env s = (Inr BADGE_IDS, s')"
    and "prepare env (format_account line) = Inl e"
    and "main env (line # others) sched s = Some out"
  shows "\<exists>c i. out = Aborted e c \<and> i < 5 \<and> (i, format_account line) \<in> set (taken c) \<and>
               format_account line \<notin> snd ` set (finished c)"
  using assms by (rule main_raises)

theorem pairs_unprocessed_when_before_try_raises_witness:
  "\<exists>c. main (scripted [Inr badges_ok]) [''wallet-1'', key_a, key_b] [0, 1, 2, 3, 4]
           \<lparr>world = 0, trace = []\<rparr>
         = Some (Aborted (LibraryError ''ValueError'') c) \<and>
       map snd (taken c) = [(''wallet-1'', None), (key_a, None), (key_b, None)] \<and>
       queue c = [] \<and> finished c = [] \<and>
       (\<exists>i. i < 5 \<and> (i, (''wallet-1'', None)) \<in> set (taken c)) \<and>
       (''wallet-1'', None) \<notin> snd ` set (finished c)"
proof -
  let ?env = "scripted [Inr badges_ok]"
  let ?s = "\<lparr>world = 0 :: nat, trace = []\<rparr>"
  let ?lines = "[''wallet-1'', key_a, key_b]"
  have "fst (badge_list ?env ?s) = Inr [(JInt 1, JString ''Genesis''), (JInt 2, JString ''Pioneer'')]"
    by (simp add: badge_list_def badge_list_request_def io_defs scripted_def sample_defs)
  then have b: "badge_list ?env ?s =
      (Inr [(JInt 1, JString ''Genesis''), (JInt 2, JString ''Pioneer'')], snd (badge_list ?env ?s))"
    by (simp add: prod_eq_iff)
  have p: "prepare ?env (format_account ''wallet-1'') = Inl (LibraryError ''ValueError'')"
    by (simp add: prepare_def bind_err_def format_account_def scripted_def sample_from_key_def)
  have f: "format_account ''wallet-1'' = (''wallet-1'', None)"
    by (simp add: format_account_def)
  have "\<exists>c. main ?env ?lines [0, 1, 2, 3, 4] ?s = Some (Aborted (LibraryError ''ValueError'') c) \<and>
       map snd (taken c) = [(''wallet-1'', None), (key_a, None), (key_b, None)] \<and>
       queue c = [] \<and> finished c = []"
    by (simp add: main_def gather_def step_def start_def badge_list_def badge_list_request_def
          io_defs sample_defs run_defs format_account_def)
  then obtain c where m: "main ?env ?lines [0, 1, 2, 3, 4] ?s = Some (Aborted (LibraryError ''ValueError'') c)"
    and t: "map snd (taken c) = [(''wallet-1'', None), (key_a, None), (key_b, None)]"
    and q: "queue c = []" and d: "finished c = []"
    by (elim exE conjE)
  from pairs_unprocessed_when_before_try_raises [OF b p m] f
  have "(\<exists>i. i < 5 \<and> (i, (''wallet-1'', None)) \<in> set (taken c)) \<and>
        (''wallet-1'', None) \<notin> snd ` set (finished c)"
    by auto
  with m t q d show ?thesis
    by (intro exI [of _ c]) simp
qed

end
